theory Spec2Isabelle
  imports Main "HOL-Library.Word"
begin

unbundle bit_operations_syntax

section \<open>Machine state (chip8.h)\<close>

text \<open>
  The interpreter's state is the C struct \<^verbatim>\<open>Chip8\<close>.  Arrays are lists; the fixed
  array sizes of the header are the constants below and the predicate \<open>well_formed\<close> says that
  every list has the size of its array.  The function pointer \<^verbatim>\<open>key_handle\<close> is not a
  field of the record: every function that calls it takes the handler as its first
  argument \<open>kh\<close>.  The field \<open>userdata\<close> stands for whatever the handler reads from the
  outside world.
\<close>

type_synonym Opcode = "16 word"

definition SCREEN_W :: nat where "SCREEN_W = 64"
definition SCREEN_H :: nat where "SCREEN_H = 32"
definition RAM_SIZE :: nat where "RAM_SIZE = 0x1000"
definition ROM_START :: nat where "ROM_START = 0x200"
definition ROM_SIZE :: nat where "ROM_SIZE = RAM_SIZE - ROM_START"
definition KEYPAD_SIZE :: nat where "KEYPAD_SIZE = 16"
definition CHAR_SIZE :: nat where "CHAR_SIZE = 5"
definition FONT_START :: nat where "FONT_START = 0"
definition FONT_SIZE :: nat where "FONT_SIZE = KEYPAD_SIZE * CHAR_SIZE"
definition STACK_SIZE :: nat where "STACK_SIZE = 16"
definition SCREEN_SIZE :: nat where "SCREEN_SIZE = SCREEN_W * SCREEN_H"

lemmas sizes =
  SCREEN_W_def SCREEN_H_def RAM_SIZE_def ROM_START_def ROM_SIZE_def KEYPAD_SIZE_def
  CHAR_SIZE_def FONT_START_def FONT_SIZE_def STACK_SIZE_def SCREEN_SIZE_def

record 'u Chip8 =
  ram :: "8 word list"
  screen :: "8 word list"
  stack :: "16 word list"
  v :: "8 word list"
  i :: "16 word"
  dt :: "8 word"
  st :: "8 word"
  sp :: "8 word"
  pc :: "16 word"
  keys :: "int list"
  userdata :: 'u

definition well_formed :: "'u Chip8 \<Rightarrow> bool" where
  "well_formed s \<longleftrightarrow>
     length (ram s) = RAM_SIZE \<and> length (screen s) = SCREEN_SIZE \<and>
     length (stack s) = STACK_SIZE \<and> length (v s) = 16 \<and> length (keys s) = KEYPAD_SIZE"

text \<open>
  C leaves an access outside an array undefined.  The model makes it a value: a handler
  that would index \<^verbatim>\<open>ram\<close>, \<^verbatim>\<open>screen\<close>, \<^verbatim>\<open>stack\<close> or \<^verbatim>\<open>keys\<close> outside its bounds returns
  \<open>Inl Out_of_bounds\<close>.  \<^verbatim>\<open>abort()\<close> in the bad-instruction handler is
  \<open>Inl (Bad_instruction op)\<close>.  Register indices are four-bit fields of the opcode and
  never leave \<^verbatim>\<open>v[16]\<close>.
\<close>

datatype error = Bad_instruction Opcode | Out_of_bounds

section \<open>Creation, reset, timers (chip8.c)\<close>

definition font :: "8 word list" where
  "font =
    [0xF0, 0x90, 0x90, 0x90, 0xF0,
     0x20, 0x60, 0x20, 0x20, 0x70,
     0xF0, 0x10, 0xF0, 0x80, 0xF0,
     0xF0, 0x10, 0xF0, 0x10, 0xF0,
     0x90, 0x90, 0xF0, 0x10, 0x10,
     0xF0, 0x80, 0xF0, 0x10, 0xF0,
     0xF0, 0x80, 0xF0, 0x90, 0xF0,
     0xF0, 0x10, 0x20, 0x40, 0x40,
     0xF0, 0x90, 0xF0, 0x90, 0xF0,
     0xF0, 0x90, 0xF0, 0x10, 0xF0,
     0xF0, 0x90, 0xF0, 0x90, 0x90,
     0xE0, 0x90, 0xE0, 0x90, 0xE0,
     0xF0, 0x80, 0x80, 0x80, 0xF0,
     0xE0, 0x90, 0x90, 0x90, 0xE0,
     0xF0, 0x80, 0xF0, 0x80, 0xF0,
     0xF0, 0x80, 0xF0, 0x80, 0x80]"

text \<open>The struct after \<^verbatim>\<open>memset\<close>, \<^verbatim>\<open>pc = 0x200\<close> and the \<^verbatim>\<open>memcpy\<close> of the font.\<close>

definition chip8_init :: "'u \<Rightarrow> 'u Chip8" where
  "chip8_init ud =
     \<lparr> ram = replicate FONT_START 0 @ font @ replicate (RAM_SIZE - FONT_START - FONT_SIZE) 0,
       screen = replicate SCREEN_SIZE 0,
       stack = replicate STACK_SIZE 0,
       v = replicate 16 0,
       i = 0, dt = 0, st = 0, sp = 0,
       pc = 0x200,
       keys = replicate KEYPAD_SIZE 0,
       userdata = ud \<rparr>"

text \<open>\<^verbatim>\<open>chip8_create\<close>: \<open>None\<close> is the \<^verbatim>\<open>NULL\<close> returned when \<^verbatim>\<open>malloc\<close> fails.\<close>

definition chip8_create :: "bool \<Rightarrow> 'u \<Rightarrow> 'u Chip8 option" where
  "chip8_create malloc_ok ud = (if malloc_ok then Some (chip8_init ud) else None)"

definition chip8_reset :: "'u Chip8 \<Rightarrow> 'u Chip8" where
  "chip8_reset s =
     s\<lparr> pc := 0x200, i := 0, dt := 0, st := 0, sp := 0,
        v := replicate 16 0,
        stack := replicate STACK_SIZE 0,
        screen := replicate SCREEN_SIZE 0 \<rparr>"



section \<open>Opcode fields\<close>

definition NNN :: "Opcode \<Rightarrow> Opcode" where "NNN op = op AND 0x0FFF"
definition N :: "Opcode \<Rightarrow> Opcode" where "N op = op AND 0x000F"
definition KK :: "Opcode \<Rightarrow> Opcode" where "KK op = op AND 0x00FF"
definition X :: "Opcode \<Rightarrow> Opcode" where "X op = drop_bit 8 (op AND 0x0F00)"
definition Y :: "Opcode \<Rightarrow> Opcode" where "Y op = drop_bit 4 (op AND 0x00F0)"

section \<open>Instruction handlers\<close>

text \<open>
  A handler that cannot leave an array returns the new state; one that can returns
  \<open>error + state\<close>.  Every read of \<^verbatim>\<open>chip->v[...]\<close> is a read of the state at that point
  of the C function, so that a write to \<^verbatim>\<open>v[0xF]\<close> is seen by the reads after it.
\<close>

subsection \<open>Jumps and subroutines\<close>

definition chip8_cpu_jmp :: "'u Chip8 \<Rightarrow> Opcode \<Rightarrow> 'u Chip8" where
  "chip8_cpu_jmp s op = s\<lparr> pc := NNN op \<rparr>"

definition chip8_cpu_jmpv0 :: "'u Chip8 \<Rightarrow> Opcode \<Rightarrow> 'u Chip8" where
  "chip8_cpu_jmpv0 s op = s\<lparr> pc := NNN op + ucast (v s ! 0) \<rparr>"

definition chip8_cpu_call :: "'u Chip8 \<Rightarrow> Opcode \<Rightarrow> error + 'u Chip8" where
  "chip8_cpu_call s op =
     (if unat (sp s) < STACK_SIZE
      then Inr (s\<lparr> stack := (stack s)[unat (sp s) := pc s], sp := sp s + 1, pc := NNN op \<rparr>)
      else Inl Out_of_bounds)"

definition chip8_cpu_ret :: "'u Chip8 \<Rightarrow> Opcode \<Rightarrow> error + 'u Chip8" where
  "chip8_cpu_ret s op =
     (let s1 = s\<lparr> sp := sp s - 1 \<rparr>
      in if unat (sp s1) < STACK_SIZE
         then Inr (s1\<lparr> pc := stack s1 ! unat (sp s1) \<rparr>)
         else Inl Out_of_bounds)"

subsection \<open>Skips\<close>

definition chip8_cpu_se :: "'u Chip8 \<Rightarrow> Opcode \<Rightarrow> 'u Chip8" where
  "chip8_cpu_se s op = s\<lparr> pc := pc s + (if ucast (v s ! unat (X op)) = KK op then 2 else 0) \<rparr>"

definition chip8_cpu_sne :: "'u Chip8 \<Rightarrow> Opcode \<Rightarrow> 'u Chip8" where
  "chip8_cpu_sne s op = s\<lparr> pc := pc s + (if ucast (v s ! unat (X op)) \<noteq> KK op then 2 else 0) \<rparr>"

definition chip8_cpu_ser :: "'u Chip8 \<Rightarrow> Opcode \<Rightarrow> 'u Chip8" where
  "chip8_cpu_ser s op =
     s\<lparr> pc := pc s + (if v s ! unat (X op) = v s ! unat (Y op) then 2 else 0) \<rparr>"

definition chip8_cpu_sner :: "'u Chip8 \<Rightarrow> Opcode \<Rightarrow> 'u Chip8" where
  "chip8_cpu_sner s op =
     s\<lparr> pc := pc s + (if v s ! unat (X op) \<noteq> v s ! unat (Y op) then 2 else 0) \<rparr>"

subsection \<open>Data registers\<close>

definition chip8_cpu_ld :: "'u Chip8 \<Rightarrow> Opcode \<Rightarrow> 'u Chip8" where
  "chip8_cpu_ld s op = s\<lparr> v := (v s)[unat (X op) := ucast (KK op)] \<rparr>"

definition chip8_cpu_ldr :: "'u Chip8 \<Rightarrow> Opcode \<Rightarrow> 'u Chip8" where
  "chip8_cpu_ldr s op = s\<lparr> v := (v s)[unat (X op) := v s ! unat (Y op)] \<rparr>"

definition chip8_cpu_or :: "'u Chip8 \<Rightarrow> Opcode \<Rightarrow> 'u Chip8" where
  "chip8_cpu_or s op =
     s\<lparr> v := (v s)[unat (X op) := v s ! unat (X op) OR v s ! unat (Y op)] \<rparr>"

definition chip8_cpu_xor :: "'u Chip8 \<Rightarrow> Opcode \<Rightarrow> 'u Chip8" where
  "chip8_cpu_xor s op =
     s\<lparr> v := (v s)[unat (X op) := v s ! unat (X op) XOR v s ! unat (Y op)] \<rparr>"

definition chip8_cpu_and :: "'u Chip8 \<Rightarrow> Opcode \<Rightarrow> 'u Chip8" where
  "chip8_cpu_and s op =
     s\<lparr> v := (v s)[unat (X op) := v s ! unat (X op) AND v s ! unat (Y op)] \<rparr>"

definition chip8_cpu_add :: "'u Chip8 \<Rightarrow> Opcode \<Rightarrow> 'u Chip8" where
  "chip8_cpu_add s op = s\<lparr> v := (v s)[unat (X op) := v s ! unat (X op) + ucast (KK op)] \<rparr>"

text \<open>
  \<^verbatim>\<open>v[0xF] = v[X] + v[Y] > 0xFF ? 1 : 0; v[X] += v[Y];\<close>  The sum of the first
  statement is an \<^verbatim>\<open>int\<close>; the second statement reads the registers again.
\<close>

definition chip8_cpu_addr :: "'u Chip8 \<Rightarrow> Opcode \<Rightarrow> 'u Chip8" where
  "chip8_cpu_addr s op =
     (let s1 = s\<lparr> v := (v s)[0xF :=
                  (if unat (v s ! unat (X op)) + unat (v s ! unat (Y op)) > 0xFF then 1 else 0)] \<rparr>
      in s1\<lparr> v := (v s1)[unat (X op) := v s1 ! unat (X op) + v s1 ! unat (Y op)] \<rparr>)"

definition chip8_cpu_sub :: "'u Chip8 \<Rightarrow> Opcode \<Rightarrow> 'u Chip8" where
  "chip8_cpu_sub s op =
     s\<lparr> v := (v s)[unat (X op) := v s ! unat (X op) - v s ! unat (Y op)] \<rparr>"

definition chip8_cpu_subn :: "'u Chip8 \<Rightarrow> Opcode \<Rightarrow> 'u Chip8" where
  "chip8_cpu_subn s op =
     (let s1 = s\<lparr> v := (v s)[0xF := (if v s ! unat (Y op) > v s ! unat (X op) then 1 else 0)] \<rparr>
      in s1\<lparr> v := (v s1)[unat (X op) := v s1 ! unat (Y op) - v s1 ! unat (X op)] \<rparr>)"

text \<open>\<^verbatim>\<open>v[0xF] = (v[X] & 0x0F) >> 3 == 1 ? 1 : 0; v[X] >>= 1;\<close>\<close>

definition chip8_cpu_shr :: "'u Chip8 \<Rightarrow> Opcode \<Rightarrow> 'u Chip8" where
  "chip8_cpu_shr s op =
     (let s1 = s\<lparr> v := (v s)[0xF :=
                  (if drop_bit 3 (v s ! unat (X op) AND 0x0F) = 1 then 1 else 0)] \<rparr>
      in s1\<lparr> v := (v s1)[unat (X op) := drop_bit 1 (v s1 ! unat (X op))] \<rparr>)"

text \<open>
  \<^verbatim>\<open>v[0xF] = v[X] >> 15 == 1 ? 1 : 0; v[X] <<= 1;\<close>  The shifted operand is the
  register promoted to \<^verbatim>\<open>int\<close>; the assignment back to the register keeps eight bits.
\<close>

definition chip8_cpu_shl :: "'u Chip8 \<Rightarrow> Opcode \<Rightarrow> 'u Chip8" where
  "chip8_cpu_shl s op =
     (let s1 = s\<lparr> v := (v s)[0xF :=
                  (if drop_bit 15 (uint (v s ! unat (X op))) = 1 then 1 else 0)] \<rparr>
      in s1\<lparr> v := (v s1)[unat (X op) := push_bit 1 (v s1 ! unat (X op))] \<rparr>)"

text \<open>\<^verbatim>\<open>v[X] = (uint8_t) rand() & KK\<close>: \<open>r\<close> is the byte \<^verbatim>\<open>(uint8_t) rand()\<close>.\<close>

definition chip8_cpu_rnd :: "8 word \<Rightarrow> 'u Chip8 \<Rightarrow> Opcode \<Rightarrow> 'u Chip8" where
  "chip8_cpu_rnd r s op = s\<lparr> v := (v s)[unat (X op) := r AND ucast (KK op)] \<rparr>"

subsection \<open>Index register\<close>

definition chip8_cpu_ldi :: "'u Chip8 \<Rightarrow> Opcode \<Rightarrow> 'u Chip8" where
  "chip8_cpu_ldi s op = s\<lparr> i := NNN op \<rparr>"

definition chip8_cpu_addi :: "'u Chip8 \<Rightarrow> Opcode \<Rightarrow> 'u Chip8" where
  "chip8_cpu_addi s op = s\<lparr> i := i s + ucast (v s ! unat (X op)) \<rparr>"

subsection \<open>Loops\<close>

text \<open>
  \<^verbatim>\<open>for (k = k0; k < n; k++) body\<close>, where the body may fail and neither the counter
  nor the bound is written by the body.
\<close>

function for_upto :: "nat \<Rightarrow> nat \<Rightarrow> (nat \<Rightarrow> 's \<Rightarrow> error + 's) \<Rightarrow> 's \<Rightarrow> error + 's" where
  "for_upto k n body s =
     (if k < n
      then (case body k s of Inl e \<Rightarrow> Inl e | Inr s' \<Rightarrow> for_upto (Suc k) n body s')
      else Inr s)"
  by pat_completeness auto
termination
  by (relation "measure (\<lambda>(k, n, body, s). n - k)") auto

declare for_upto.simps [simp del]

subsection \<open>Storage\<close>

text \<open>
  \<^verbatim>\<open>for (uint8_t i = 0; i <= X; i++) ram[chip->i + i] = v[i];  chip->i += X + 1;\<close>
  The address \<^verbatim>\<open>chip->i + i\<close> is an \<^verbatim>\<open>int\<close> and does not wrap; \<^verbatim>\<open>X\<close> is at most 15, so
  the counter does not wrap either and the loop runs for \<open>k < X + 1\<close>.
\<close>

definition ldir_step :: "nat \<Rightarrow> 'u Chip8 \<Rightarrow> error + 'u Chip8" where
  "ldir_step k s =
     (if unat (i s) + k < RAM_SIZE
      then Inr (s\<lparr> ram := (ram s)[unat (i s) + k := v s ! k] \<rparr>)
      else Inl Out_of_bounds)"

definition chip8_cpu_ldir :: "'u Chip8 \<Rightarrow> Opcode \<Rightarrow> error + 'u Chip8" where
  "chip8_cpu_ldir s op =
     (case for_upto 0 (unat (X op) + 1) ldir_step s of
        Inl e \<Rightarrow> Inl e
      | Inr s1 \<Rightarrow> Inr (s1\<lparr> i := i s1 + (X op + 1) \<rparr>))"

definition ldri_step :: "nat \<Rightarrow> 'u Chip8 \<Rightarrow> error + 'u Chip8" where
  "ldri_step k s =
     (if unat (i s) + k < RAM_SIZE
      then Inr (s\<lparr> v := (v s)[k := ram s ! (unat (i s) + k)] \<rparr>)
      else Inl Out_of_bounds)"

definition chip8_cpu_ldri :: "'u Chip8 \<Rightarrow> Opcode \<Rightarrow> error + 'u Chip8" where
  "chip8_cpu_ldri s op =
     (case for_upto 0 (unat (X op) + 1) ldri_step s of
        Inl e \<Rightarrow> Inl e
      | Inr s1 \<Rightarrow> Inr (s1\<lparr> i := i s1 + (X op + 1) \<rparr>))"

subsection \<open>Drawing\<close>

text \<open>
  The body of the inner loop of \<^verbatim>\<open>chip8_cpu_drw\<close> for row \<open>r\<close>, sprite byte \<open>byte\<close> and
  column \<open>c\<close>.  The index expression is evaluated twice, once for the collision test and
  once for the XOR, and the write to \<^verbatim>\<open>v[0xF]\<close> lies between the two.
\<close>

definition drw_index :: "'u Chip8 \<Rightarrow> Opcode \<Rightarrow> nat \<Rightarrow> nat \<Rightarrow> nat" where
  "drw_index s op r c =
     unat (v s ! unat (X op)) + c + (unat (v s ! unat (Y op)) + r) * SCREEN_W"

definition drw_pixel :: "Opcode \<Rightarrow> nat \<Rightarrow> 8 word \<Rightarrow> nat \<Rightarrow> 'u Chip8 \<Rightarrow> error + 'u Chip8" where
  "drw_pixel op r byte c s =
     (if byte AND drop_bit c 0x80 \<noteq> 0
      then (if drw_index s op r c < SCREEN_SIZE
            then (let s1 = (if screen s ! drw_index s op r c \<noteq> 0
                            then s\<lparr> v := (v s)[0xF := 0x1] \<rparr> else s)
                  in if drw_index s1 op r c < SCREEN_SIZE
                     then Inr (s1\<lparr> screen := (screen s1)[drw_index s1 op r c :=
                                   screen s1 ! drw_index s1 op r c XOR 0x1] \<rparr>)
                     else Inl Out_of_bounds)
            else Inl Out_of_bounds)
      else Inr s)"

definition drw_row :: "Opcode \<Rightarrow> nat \<Rightarrow> 'u Chip8 \<Rightarrow> error + 'u Chip8" where
  "drw_row op r s =
     (if unat (i s) + r < RAM_SIZE
      then for_upto 0 8 (drw_pixel op r (ram s ! (unat (i s) + r))) s
      else Inl Out_of_bounds)"

definition chip8_cpu_drw :: "'u Chip8 \<Rightarrow> Opcode \<Rightarrow> error + 'u Chip8" where
  "chip8_cpu_drw s op =
     for_upto 0 (unat (N op)) (drw_row op) (s\<lparr> v := (v s)[0xF := 0] \<rparr>)"

definition chip8_cpu_cls :: "'u Chip8 \<Rightarrow> Opcode \<Rightarrow> 'u Chip8" where
  "chip8_cpu_cls s op = s\<lparr> screen := replicate SCREEN_SIZE 0 \<rparr>"

subsection \<open>Font\<close>

definition chip8_cpu_ldf :: "'u Chip8 \<Rightarrow> Opcode \<Rightarrow> 'u Chip8" where
  "chip8_cpu_ldf s op = s\<lparr> i := of_nat (unat (v s ! unat (X op)) * CHAR_SIZE) \<rparr>"

subsection \<open>Keypad\<close>

text \<open>
  The inner loop of \<^verbatim>\<open>chip8_cpu_ldk\<close>: the first \<open>k\<close> from \<open>k0\<close> on with
  \<^verbatim>\<open>keys[k] != 0\<close>, or \<open>None\<close> when the loop ends without the \<^verbatim>\<open>goto\<close>.
\<close>

function key_scan :: "int list \<Rightarrow> nat \<Rightarrow> nat option" where
  "key_scan ks k =
     (if k < KEYPAD_SIZE
      then (if ks ! k \<noteq> 0 then Some k else key_scan ks (Suc k))
      else None)"
  by pat_completeness auto
termination
  by (relation "measure (\<lambda>(ks, k). KEYPAD_SIZE - k)") auto

declare key_scan.simps [simp del]

text \<open>
  The outer loop \<^verbatim>\<open>for (;;)\<close> calls the key handler and scans again until a key is
  down.  It need not end: \<open>None\<close> is the run that polls for ever.
\<close>

partial_function (option) chip8_cpu_ldk ::
    "('u Chip8 \<Rightarrow> 'u Chip8) \<Rightarrow> 'u Chip8 \<Rightarrow> Opcode \<Rightarrow> 'u Chip8 option" where
  "chip8_cpu_ldk kh s op =
     (let s1 = kh s
      in case key_scan (keys s1) 0 of
           Some k \<Rightarrow> Some (s1\<lparr> v := (v s1)[unat (X op) := of_nat k] \<rparr>)
         | None \<Rightarrow> chip8_cpu_ldk kh s1 op)"

definition chip8_cpu_skp :: "'u Chip8 \<Rightarrow> Opcode \<Rightarrow> error + 'u Chip8" where
  "chip8_cpu_skp s op =
     (if unat (v s ! unat (X op)) < KEYPAD_SIZE
      then Inr (if keys s ! unat (v s ! unat (X op)) \<noteq> 0 then s\<lparr> pc := pc s + 2 \<rparr> else s)
      else Inl Out_of_bounds)"

definition chip8_cpu_sknp :: "'u Chip8 \<Rightarrow> Opcode \<Rightarrow> error + 'u Chip8" where
  "chip8_cpu_sknp s op =
     (if unat (v s ! unat (X op)) < KEYPAD_SIZE
      then Inr (if keys s ! unat (v s ! unat (X op)) = 0 then s\<lparr> pc := pc s + 2 \<rparr> else s)
      else Inl Out_of_bounds)"

subsection \<open>BCD\<close>

text \<open>The three stores are made in order; the digits are computed on \<^verbatim>\<open>int\<close>.\<close>

definition ram_store :: "nat \<Rightarrow> 8 word \<Rightarrow> 'u Chip8 \<Rightarrow> error + 'u Chip8" where
  "ram_store a b s =
     (if a < RAM_SIZE then Inr (s\<lparr> ram := (ram s)[a := b] \<rparr>) else Inl Out_of_bounds)"

definition chip8_cpu_bcd :: "'u Chip8 \<Rightarrow> Opcode \<Rightarrow> error + 'u Chip8" where
  "chip8_cpu_bcd s op =
     (case ram_store (unat (i s)) (of_nat (unat (v s ! unat (X op)) mod 1000 div 100)) s of
        Inl e \<Rightarrow> Inl e
      | Inr s1 \<Rightarrow>
         (case ram_store (unat (i s1) + 1) (of_nat (unat (v s1 ! unat (X op)) mod 100 div 10)) s1 of
            Inl e \<Rightarrow> Inl e
          | Inr s2 \<Rightarrow> ram_store (unat (i s2) + 2) (of_nat (unat (v s2 ! unat (X op)) mod 10)) s2))"

subsection \<open>Timers\<close>

definition chip8_cpu_ldrdt :: "'u Chip8 \<Rightarrow> Opcode \<Rightarrow> 'u Chip8" where
  "chip8_cpu_ldrdt s op = s\<lparr> v := (v s)[unat (X op) := dt s] \<rparr>"

definition chip8_cpu_lddtr :: "'u Chip8 \<Rightarrow> Opcode \<Rightarrow> 'u Chip8" where
  "chip8_cpu_lddtr s op = s\<lparr> dt := v s ! unat (X op) \<rparr>"

definition chip8_cpu_ldstr :: "'u Chip8 \<Rightarrow> Opcode \<Rightarrow> 'u Chip8" where
  "chip8_cpu_ldstr s op = s\<lparr> st := v s ! unat (X op) \<rparr>"

subsection \<open>Bad instruction\<close>

text \<open>\<^verbatim>\<open>fprintf(stderr, "BAD INSTRUCTION: %04X\n", op); abort();\<close>\<close>

definition chip8_cpu_bdi :: "'u Chip8 \<Rightarrow> Opcode \<Rightarrow> error + 'u Chip8" where
  "chip8_cpu_bdi s op = Inl (Bad_instruction op)"

section \<open>Dispatch\<close>

text \<open>
  The two tables of \<^verbatim>\<open>chip8.c\<close> hold function pointers.  \<open>Fn_x\<close> is the address of
  \<^verbatim>\<open>chip8_cpu_x\<close>, and \<open>call_op\<close> is the call through such a pointer.  The result is
  \<open>None\<close> when the call does not return (key wait), \<open>Some (Inl e)\<close> when it stops with
  \<open>e\<close>, and \<open>Some (Inr s)\<close> when it returns with state \<open>s\<close>.
\<close>

datatype Opimpl =
    Fn_func | Fn_arith | Fn_key | Fn_vx
  | Fn_jmp | Fn_jmpv0 | Fn_call | Fn_ret
  | Fn_se | Fn_sne | Fn_ser | Fn_sner
  | Fn_ld | Fn_ldr | Fn_or | Fn_xor | Fn_and | Fn_add | Fn_addr | Fn_sub | Fn_subn
  | Fn_shr | Fn_shl | Fn_rnd
  | Fn_ldi | Fn_addi | Fn_ldir | Fn_ldri
  | Fn_drw | Fn_cls | Fn_ldf
  | Fn_ldk | Fn_skp | Fn_sknp
  | Fn_bcd | Fn_lddtr | Fn_ldstr | Fn_ldrdt
  | Fn_bdi

definition chip8_op_all :: "Opimpl list" where
  "chip8_op_all =
    [Fn_func, Fn_jmp, Fn_call, Fn_se, Fn_sne, Fn_ser, Fn_ld, Fn_add,
     Fn_arith, Fn_sner, Fn_ldi, Fn_jmpv0, Fn_rnd, Fn_drw, Fn_key, Fn_vx]"

definition chip8_op_arith :: "Opimpl list" where
  "chip8_op_arith =
    [Fn_ldr, Fn_or, Fn_and, Fn_xor, Fn_addr, Fn_sub, Fn_shr, Fn_subn,
     Fn_bdi, Fn_bdi, Fn_bdi, Fn_bdi, Fn_bdi, Fn_bdi, Fn_shl, Fn_bdi]"

definition chip8_cpu_func :: "'u Chip8 \<Rightarrow> Opcode \<Rightarrow> error + 'u Chip8" where
  "chip8_cpu_func s op =
     (if KK op = 0xE0 then Inr (chip8_cpu_cls s op)
      else if KK op = 0xEE then chip8_cpu_ret s op
      else chip8_cpu_bdi s op)"

definition chip8_cpu_key :: "'u Chip8 \<Rightarrow> Opcode \<Rightarrow> error + 'u Chip8" where
  "chip8_cpu_key s op =
     (if KK op = 0x9E then chip8_cpu_skp s op
      else if KK op = 0xA1 then chip8_cpu_sknp s op
      else chip8_cpu_bdi s op)"

definition chip8_cpu_vx ::
    "('u Chip8 \<Rightarrow> 'u Chip8) \<Rightarrow> 'u Chip8 \<Rightarrow> Opcode \<Rightarrow> (error + 'u Chip8) option" where
  "chip8_cpu_vx kh s op =
     (if KK op = 0x07 then Some (Inr (chip8_cpu_ldrdt s op))
      else if KK op = 0x0A then map_option Inr (chip8_cpu_ldk kh s op)
      else if KK op = 0x15 then Some (Inr (chip8_cpu_lddtr s op))
      else if KK op = 0x18 then Some (Inr (chip8_cpu_ldstr s op))
      else if KK op = 0x1E then Some (Inr (chip8_cpu_addi s op))
      else if KK op = 0x29 then Some (Inr (chip8_cpu_ldf s op))
      else if KK op = 0x33 then Some (chip8_cpu_bcd s op)
      else if KK op = 0x55 then Some (chip8_cpu_ldir s op)
      else if KK op = 0x65 then Some (chip8_cpu_ldri s op)
      else Some (chip8_cpu_bdi s op))"

function
  call_op :: "Opimpl \<Rightarrow> ('u Chip8 \<Rightarrow> 'u Chip8) \<Rightarrow> 8 word \<Rightarrow> 'u Chip8 \<Rightarrow> Opcode
                \<Rightarrow> (error + 'u Chip8) option" and
  chip8_cpu_arith :: "('u Chip8 \<Rightarrow> 'u Chip8) \<Rightarrow> 8 word \<Rightarrow> 'u Chip8 \<Rightarrow> Opcode
                \<Rightarrow> (error + 'u Chip8) option"
where
  "call_op Fn_func kh r s op = Some (chip8_cpu_func s op)"
| "call_op Fn_arith kh r s op = chip8_cpu_arith kh r s op"
| "call_op Fn_key kh r s op = Some (chip8_cpu_key s op)"
| "call_op Fn_vx kh r s op = chip8_cpu_vx kh s op"
| "call_op Fn_jmp kh r s op = Some (Inr (chip8_cpu_jmp s op))"
| "call_op Fn_jmpv0 kh r s op = Some (Inr (chip8_cpu_jmpv0 s op))"
| "call_op Fn_call kh r s op = Some (chip8_cpu_call s op)"
| "call_op Fn_ret kh r s op = Some (chip8_cpu_ret s op)"
| "call_op Fn_se kh r s op = Some (Inr (chip8_cpu_se s op))"
| "call_op Fn_sne kh r s op = Some (Inr (chip8_cpu_sne s op))"
| "call_op Fn_ser kh r s op = Some (Inr (chip8_cpu_ser s op))"
| "call_op Fn_sner kh r s op = Some (Inr (chip8_cpu_sner s op))"
| "call_op Fn_ld kh r s op = Some (Inr (chip8_cpu_ld s op))"
| "call_op Fn_ldr kh r s op = Some (Inr (chip8_cpu_ldr s op))"
| "call_op Fn_or kh r s op = Some (Inr (chip8_cpu_or s op))"
| "call_op Fn_xor kh r s op = Some (Inr (chip8_cpu_xor s op))"
| "call_op Fn_and kh r s op = Some (Inr (chip8_cpu_and s op))"
| "call_op Fn_add kh r s op = Some (Inr (chip8_cpu_add s op))"
| "call_op Fn_addr kh r s op = Some (Inr (chip8_cpu_addr s op))"
| "call_op Fn_sub kh r s op = Some (Inr (chip8_cpu_sub s op))"
| "call_op Fn_subn kh r s op = Some (Inr (chip8_cpu_subn s op))"
| "call_op Fn_shr kh r s op = Some (Inr (chip8_cpu_shr s op))"
| "call_op Fn_shl kh r s op = Some (Inr (chip8_cpu_shl s op))"
| "call_op Fn_rnd kh r s op = Some (Inr (chip8_cpu_rnd r s op))"
| "call_op Fn_ldi kh r s op = Some (Inr (chip8_cpu_ldi s op))"
| "call_op Fn_addi kh r s op = Some (Inr (chip8_cpu_addi s op))"
| "call_op Fn_ldir kh r s op = Some (chip8_cpu_ldir s op)"
| "call_op Fn_ldri kh r s op = Some (chip8_cpu_ldri s op)"
| "call_op Fn_drw kh r s op = Some (chip8_cpu_drw s op)"
| "call_op Fn_cls kh r s op = Some (Inr (chip8_cpu_cls s op))"
| "call_op Fn_ldf kh r s op = Some (Inr (chip8_cpu_ldf s op))"
| "call_op Fn_ldk kh r s op = map_option Inr (chip8_cpu_ldk kh s op)"
| "call_op Fn_skp kh r s op = Some (chip8_cpu_skp s op)"
| "call_op Fn_sknp kh r s op = Some (chip8_cpu_sknp s op)"
| "call_op Fn_bcd kh r s op = Some (chip8_cpu_bcd s op)"
| "call_op Fn_lddtr kh r s op = Some (Inr (chip8_cpu_lddtr s op))"
| "call_op Fn_ldstr kh r s op = Some (Inr (chip8_cpu_ldstr s op))"
| "call_op Fn_ldrdt kh r s op = Some (Inr (chip8_cpu_ldrdt s op))"
| "call_op Fn_bdi kh r s op = Some (chip8_cpu_bdi s op)"
| "chip8_cpu_arith kh r s op = call_op (chip8_op_arith ! unat (N op)) kh r s op"
  by pat_completeness auto
termination
proof (relation "measure (\<lambda>a. case a of
                   Inl (f, kh, r, s, op) \<Rightarrow> (if f = Fn_arith then 2 else 0)
                 | Inr (kh, r, s, op) \<Rightarrow> 1)")
  show "wf (measure (\<lambda>a. case a of
                   Inl (f, kh, r, s, op) \<Rightarrow> (if f = Fn_arith then 2 else 0)
                 | Inr (kh, r, s, op) \<Rightarrow> (1::nat)))"
    by simp
next
  fix kh :: "'u Chip8 \<Rightarrow> 'u Chip8" and r :: "8 word" and s :: "'u Chip8" and op :: Opcode
  show "(Inr (kh, r, s, op), Inl (Fn_arith, kh, r, s, op))
          \<in> measure (\<lambda>a. case a of
                   Inl (f, kh, r, s, op) \<Rightarrow> (if f = Fn_arith then 2 else 0)
                 | Inr (kh, r, s, op) \<Rightarrow> 1)"
    by simp
next
  fix kh :: "'u Chip8 \<Rightarrow> 'u Chip8" and r :: "8 word" and s :: "'u Chip8" and op :: Opcode
  have "unat (op AND 0xF) \<le> unat (0xF :: Opcode)"
    by (rule word_and_le1 [THEN word_le_nat_alt [THEN iffD1]])
  then have lt: "unat (N op) < length chip8_op_arith"
    by (simp add: N_def chip8_op_arith_def)
  have "list_all (\<lambda>h. h \<noteq> Fn_arith) chip8_op_arith"
    by (simp add: chip8_op_arith_def)
  with lt have "chip8_op_arith ! unat (N op) \<noteq> Fn_arith"
    by (simp add: list_all_length)
  then show "(Inl (chip8_op_arith ! unat (N op), kh, r, s, op), Inr (kh, r, s, op))
          \<in> measure (\<lambda>a. case a of
                   Inl (f, kh, r, s, op) \<Rightarrow> (if f = Fn_arith then 2 else 0)
                 | Inr (kh, r, s, op) \<Rightarrow> 1)"
    by simp
qed

section \<open>The cycle driver\<close>

text \<open>
  \<^verbatim>\<open>chip8_cycle\<close>: call the key handler, fetch the opcode at \<^verbatim>\<open>pc\<close> (big-endian),
  advance \<^verbatim>\<open>pc\<close> by two, dispatch on the top nibble.  \<open>r\<close> is the byte that
  \<^verbatim>\<open>(uint8_t) rand()\<close> gives when the instruction asks for one.
\<close>

definition fetch :: "'u Chip8 \<Rightarrow> error + Opcode" where
  "fetch s =
     (if unat (pc s) + 1 < RAM_SIZE
      then Inr (push_bit 8 (ucast (ram s ! unat (pc s))) OR ucast (ram s ! (unat (pc s) + 1)))
      else Inl Out_of_bounds)"

definition chip8_cycle ::
    "('u Chip8 \<Rightarrow> 'u Chip8) \<Rightarrow> 8 word \<Rightarrow> 'u Chip8 \<Rightarrow> (error + 'u Chip8) option" where
  "chip8_cycle kh r s =
     (let s0 = kh s
      in case fetch s0 of
           Inl e \<Rightarrow> Some (Inl e)
         | Inr op \<Rightarrow>
             call_op (chip8_op_all ! unat (drop_bit (3 * 4) (op AND 0xF000))) kh r
               (s0\<lparr> pc := pc s0 + 2 \<rparr>) op)"

section \<open>Properties of the machine state\<close>



text \<open>The power-on state with the register file set to \<open>vs\<close>, for concrete runs.\<close>

definition regs_state :: "8 word list \<Rightarrow> unit Chip8" where
  "regs_state vs = (chip8_init ())\<lparr> v := vs \<rparr>"

text \<open>\<^verbatim>\<open>LD [I],Vx\<close> and then \<^verbatim>\<open>LD Vx,[I]\<close>, the second only if the first returns.\<close>

definition ldir_then_ldri :: "'u Chip8 \<Rightarrow> Opcode \<Rightarrow> Opcode \<Rightarrow> error + 'u Chip8" where
  "ldir_then_ldri s op1 op2 =
     (case chip8_cpu_ldir s op1 of Inl e \<Rightarrow> Inl e | Inr s1 \<Rightarrow> chip8_cpu_ldri s1 op2)"

text \<open>
  \<open>first_press kh s n k\<close>: started in state \<open>s\<close>, the key wait sees no key at its first \<open>n\<close>
  polls, and at poll \<open>n + 1\<close> key \<open>k\<close> is down and no key below \<open>k\<close> is.  The state seen at
  poll \<open>m + 1\<close> is \<open>(kh ^^ Suc m) s\<close>.
\<close>

definition first_press :: "('u Chip8 \<Rightarrow> 'u Chip8) \<Rightarrow> 'u Chip8 \<Rightarrow> nat \<Rightarrow> nat \<Rightarrow> bool" where
  "first_press kh s n k \<longleftrightarrow>
     (\<forall>m<n. \<forall>j<KEYPAD_SIZE. keys ((kh ^^ Suc m) s) ! j = 0) \<and>
     k < KEYPAD_SIZE \<and> keys ((kh ^^ Suc n) s) ! k \<noteq> 0 \<and>
     (\<forall>j<k. keys ((kh ^^ Suc n) s) ! j = 0)"

text \<open>A key handler that sets the keypad to \<open>ks\<close>, for concrete runs.\<close>

definition press :: "int list \<Rightarrow> unit Chip8 \<Rightarrow> unit Chip8" where
  "press ks s = s\<lparr> keys := ks \<rparr>"

text \<open>
  Notions for stating what a draw does.  \<open>sprite_bit s r c\<close>: bit \<open>c\<close> (from the left) of
  sprite row \<open>r\<close> is set.  \<open>drawn s op r c\<close>: the cells the two loops of the draw have
  visited with a set sprite bit when they reach row \<open>r\<close>, column \<open>c\<close>, all computed from
  the registers of \<open>s\<close>.  \<open>drw_flag\<close>: whether one of these cells was lit in \<open>s\<close>.
  \<open>drw_inv\<close>: the state \<open>t\<close> of the loops at row \<open>r\<close>, column \<open>c\<close> of a draw started in \<open>s\<close>.
\<close>

definition sprite_bit :: "'u Chip8 \<Rightarrow> nat \<Rightarrow> nat \<Rightarrow> bool" where
  "sprite_bit s r c \<longleftrightarrow> ram s ! (unat (i s) + r) AND drop_bit c 0x80 \<noteq> 0"

definition drawn :: "'u Chip8 \<Rightarrow> Opcode \<Rightarrow> nat \<Rightarrow> nat \<Rightarrow> nat set" where
  "drawn s op r c =
     {p. \<exists>r' c'. p = drw_index s op r' c' \<and> (r' < r \<and> c' < 8 \<or> r' = r \<and> c' < c) \<and>
           sprite_bit s r' c'}"

definition drw_flag :: "'u Chip8 \<Rightarrow> Opcode \<Rightarrow> nat \<Rightarrow> nat \<Rightarrow> 8 word" where
  "drw_flag s op r c = (if \<exists>p\<in>drawn s op r c. screen s ! p \<noteq> 0 then 1 else 0)"

definition drw_inv :: "'u Chip8 \<Rightarrow> Opcode \<Rightarrow> nat \<Rightarrow> nat \<Rightarrow> 'u Chip8 \<Rightarrow> bool" where
  "drw_inv s op r c t \<longleftrightarrow>
     (\<exists>scr. t = s\<lparr> v := (v s)[0xF := drw_flag s op r c], screen := scr \<rparr> \<and>
            length scr = SCREEN_SIZE \<and>
            (\<forall>p<SCREEN_SIZE. scr ! p =
               (if p \<in> drawn s op r c then screen s ! p XOR 1 else screen s ! p)))"

text \<open>\<^verbatim>\<open>CLS\<close>, then \<^verbatim>\<open>DRW\<close>, then the same \<^verbatim>\<open>DRW\<close> again if the first returns.\<close>

definition cls_drw_twice :: "'u Chip8 \<Rightarrow> Opcode \<Rightarrow> error + 'u Chip8" where
  "cls_drw_twice s op =
     (case chip8_cpu_drw (chip8_cpu_cls s 0x00E0) op of
        Inl e \<Rightarrow> Inl e
      | Inr s1 \<Rightarrow> chip8_cpu_drw s1 op)"

text \<open>The values of the display cells \<open>ps\<close>, in the order given.\<close>

definition cells :: "nat list \<Rightarrow> 'u Chip8 \<Rightarrow> 8 word list" where
  "cells ps s = map ((!) (screen s)) ps"

section \<open>Opcode fields are four bits wide\<close>


lemma X_eq: "X op = drop_bit 8 op AND 0xF"
  unfolding X_def by (simp add: bit_eq_iff bit_simps)

lemma Y_eq: "Y op = drop_bit 4 op AND 0xF"
  unfolding Y_def by (simp add: bit_eq_iff bit_simps)

lemma X_lt_16: "unat (X op) < 16"
proof -
  have "unat (drop_bit 8 op AND 0xF) \<le> unat (0xF :: Opcode)"
    by (rule word_and_le1 [THEN word_le_nat_alt [THEN iffD1]])
  then show ?thesis by (simp add: X_eq)
qed

lemma Y_lt_16: "unat (Y op) < 16"
proof -
  have "unat (drop_bit 4 op AND 0xF) \<le> unat (0xF :: Opcode)"
    by (rule word_and_le1 [THEN word_le_nat_alt [THEN iffD1]])
  then show ?thesis by (simp add: Y_eq)
qed

lemma X_ne_F: "X op \<noteq> 0xF \<Longrightarrow> unat (X op) \<noteq> 15"
  by (auto simp: word_unat_eq_iff)

lemma Y_ne_F: "Y op \<noteq> 0xF \<Longrightarrow> unat (Y op) \<noteq> 15"
  by (auto simp: word_unat_eq_iff)

section \<open>Shifts\<close>

text \<open>
  C1.  \<^verbatim>\<open>SHR Vx\<close> is to put the least-significant bit of \<open>Vx\<close> into \<open>VF\<close> and \<^verbatim>\<open>SHL Vx\<close>
  the most-significant bit.  The code tests bit 3 in \<^verbatim>\<open>chip8_cpu_shr\<close> and bit 15 of an
  eight-bit value in \<^verbatim>\<open>chip8_cpu_shl\<close>.  With \<open>V0 = 1\<close>, \<^verbatim>\<open>SHR V0\<close> leaves \<open>VF = 0\<close> although
  the bit shifted out is 1; with \<open>V0 = 0x80\<close>, \<^verbatim>\<open>SHL V0\<close> leaves \<open>VF = 0\<close> although the bit
  shifted out is 1.  The shifted values themselves (both 0 here) are as the claim says.
\<close>

theorem shr_shl_flag_evaluated:
  "v (chip8_cpu_shr (regs_state [1,0,0,0,0,0,0,0,0,0,0,0,0,0,0,0]) 0x8006)
     = [0,0,0,0,0,0,0,0,0,0,0,0,0,0,0,0] \<and>
   v (chip8_cpu_shl (regs_state [0x80,0,0,0,0,0,0,0,0,0,0,0,0,0,0,0]) 0x800E)
     = [0,0,0,0,0,0,0,0,0,0,0,0,0,0,0,0]"
  by (simp add: chip8_cpu_shr_def chip8_cpu_shl_def regs_state_def X_def Let_def)

section \<open>Addition and subtraction of registers\<close>

text \<open>
  C2, as stated, fails when \<open>x = 0xF\<close>: the flag and the sum are then the same register.
  With \<open>VF = 4\<close> and \<open>V0 = 3\<close>, \<^verbatim>\<open>ADD VF,V0\<close> first writes the carry 0 to \<open>VF\<close> and then adds
  \<open>V0\<close> to it, so \<open>VF\<close> ends as 3: neither the carry 0 nor the sum 7.
\<close>

theorem addr_flag_register_counterexample:
  "v (chip8_cpu_addr (regs_state [3,0,0,0,0,0,0,0,0,0,0,0,0,0,0,4]) 0x8F04)
     = [3,0,0,0,0,0,0,0,0,0,0,0,0,0,0,3]"
  by (simp add: chip8_cpu_addr_def regs_state_def X_def Y_def Let_def)

text \<open>
  C2, amended.  For register indices \<open>x\<close> and \<open>y\<close> both different from \<open>0xF\<close> and every
  state, \<^verbatim>\<open>ADD Vx,Vy\<close> leaves \<open>VF = 1\<close> if the unsigned sum of the original \<open>Vx\<close> and \<open>Vy\<close>
  exceeds 255 and \<open>VF = 0\<close> otherwise, and leaves \<open>Vx\<close> equal to that sum mod 256.
\<close>

theorem addr_carry_and_sum:
  assumes "well_formed s" and "X op \<noteq> 0xF" and "Y op \<noteq> 0xF"
  shows "v (chip8_cpu_addr s op) ! 0xF =
           (if unat (v s ! unat (X op)) + unat (v s ! unat (Y op)) > 255 then 1 else 0) \<and>
         unat (v (chip8_cpu_addr s op) ! unat (X op)) =
           (unat (v s ! unat (X op)) + unat (v s ! unat (Y op))) mod 256"
proof -
  have len: "length (v s) = 16"
    using assms(1) by (simp add: well_formed_def)
  have x: "unat (X op) < 16" "unat (X op) \<noteq> 15"
    using X_lt_16 X_ne_F assms(2) by auto
  have y: "unat (Y op) \<noteq> 15"
    using Y_ne_F assms(3) by auto
  show ?thesis
    using len x y by (simp add: chip8_cpu_addr_def Let_def unat_word_ariths)
qed

theorem addr_carry_and_sum_witness:
  "v (chip8_cpu_addr (regs_state [200,100,0,0,0,0,0,0,0,0,0,0,0,0,0,0]) 0x8014) ! 0xF = 1 \<and>
   unat (v (chip8_cpu_addr (regs_state [200,100,0,0,0,0,0,0,0,0,0,0,0,0,0,0]) 0x8014) ! 0) = 44"
  using addr_carry_and_sum [of "regs_state [200,100,0,0,0,0,0,0,0,0,0,0,0,0,0,0]" "0x8014"]
  by (simp add: regs_state_def chip8_init_def well_formed_def sizes font_def X_def Y_def)

text \<open>
  C4.  \<^verbatim>\<open>SUB Vx,Vy\<close> is to set \<open>VF\<close> to 1 when \<open>Vx \<ge> Vy\<close>.  \<^verbatim>\<open>chip8_cpu_sub\<close> only
  subtracts; it never writes \<open>VF\<close>, unlike \<^verbatim>\<open>chip8_cpu_subn\<close> and \<^verbatim>\<open>chip8_cpu_addr\<close>.
  With \<open>V0 = 5\<close>, \<open>V1 = 3\<close> and \<open>VF = 0\<close>, \<^verbatim>\<open>SUB V0,V1\<close> gives \<open>V0 = 2\<close> and leaves \<open>VF = 0\<close>.
\<close>

theorem sub_flag_evaluated:
  "v (chip8_cpu_sub (regs_state [5,3,0,0,0,0,0,0,0,0,0,0,0,0,0,0]) 0x8015)
     = [2,3,0,0,0,0,0,0,0,0,0,0,0,0,0,0]"
  by (simp add: chip8_cpu_sub_def regs_state_def X_def Y_def Let_def)

section \<open>Reset\<close>

text \<open>
  C7.  After \<^verbatim>\<open>chip8_reset\<close> the sixteen registers, the sixteen stack slots, the
  stack pointer, both timers, the index register and the 2048 display cells are zero,
  \<open>pc\<close> is \<open>0x200\<close>, and the memory is what it was.
\<close>

theorem reset_clears_all_but_memory:
  "v (chip8_reset s) = replicate 16 0 \<and> stack (chip8_reset s) = replicate 16 0 \<and>
   sp (chip8_reset s) = 0 \<and> dt (chip8_reset s) = 0 \<and> st (chip8_reset s) = 0 \<and>
   i (chip8_reset s) = 0 \<and> screen (chip8_reset s) = replicate 2048 0 \<and>
   pc (chip8_reset s) = 0x200 \<and> ram (chip8_reset s) = ram s"
  by (simp add: chip8_reset_def sizes)

section \<open>The arithmetic dispatch table\<close>

text \<open>
  C8, as stated, counts six bad-instruction slots in \<^verbatim>\<open>chip8_op_arith\<close>.  The table has
  seven.
\<close>

theorem arith_bad_slots_counterexample:
  "count_list chip8_op_arith Fn_bdi = 7"
  by (simp add: chip8_op_arith_def)

text \<open>
  C8, amended.  In the dispatch table for top nibble 8, exactly the seven slots 8, 9,
  A, B, C, D and F (those not occupied by the nine operations LD, OR, AND, XOR, ADD, SUB,
  SHR, SUBN, SHL) hold the bad-instruction handler; dispatching an opcode whose low
  nibble is one of them stops with the bad-instruction error carrying that opcode, and
  no state is returned.
\<close>

theorem arith_bad_slots:
  "filter (\<lambda>n. chip8_op_arith ! n = Fn_bdi) [0..<16] = [8, 9, 10, 11, 12, 13, 15] \<and>
   (chip8_op_arith ! unat (N op) = Fn_bdi \<longrightarrow>
      chip8_cpu_arith kh r s op = Some (Inl (Bad_instruction op))) \<and>
   chip8_cpu_bdi s op = Inl (Bad_instruction op)"
  by (simp add: chip8_op_arith_def upt_rec chip8_cpu_bdi_def)

theorem arith_bad_slots_witness:
  "chip8_cpu_arith id 0 (chip8_init ()) 0x8008 = Some (Inl (Bad_instruction 0x8008))"
  using arith_bad_slots [of "0x8008" id 0 "chip8_init ()"]
  by (simp add: N_def chip8_op_arith_def)

section \<open>Loops\<close>

lemma for_upto_invariant:
  assumes "Inv k s" and "k \<le> n"
    and "\<And>j t. k \<le> j \<Longrightarrow> j < n \<Longrightarrow> Inv j t \<Longrightarrow> \<exists>t'. body j t = Inr t' \<and> Inv (Suc j) t'"
  shows "\<exists>t'. for_upto k n body s = Inr t' \<and> Inv n t'"
  using assms
proof (induction "n - k" arbitrary: k s)
  case 0
  then show ?case by (simp add: for_upto.simps)
next
  case (Suc d)
  then have lt: "k < n" by simp
  from Suc.prems(3) [OF le_refl lt Suc.prems(1)]
  obtain t where t: "body k s = Inr t" "Inv (Suc k) t" by blast
  have "\<exists>t'. for_upto (Suc k) n body t = Inr t' \<and> Inv n t'"
  proof (rule Suc.hyps(1))
    show "d = n - Suc k" using Suc.hyps(2) by simp
    show "Inv (Suc k) t" by (rule t(2))
    show "Suc k \<le> n" using lt by simp
    show "\<exists>t'. body j u = Inr t' \<and> Inv (Suc j) t'" if "Suc k \<le> j" "j < n" "Inv j u" for j u
      using Suc.prems(3) [of j u] that by simp
  qed
  then show ?case using lt t(1) by (subst for_upto.simps) simp
qed


section \<open>Bulk store and load\<close>

text \<open>
  C3, as stated, fails: the store advances \<open>I\<close> by \<open>x + 1\<close>, so the load that follows
  reads the bytes after the ones just written.  With \<open>V0 = 5\<close>, \<open>I = 0x300\<close> and zeroed
  memory there, \<^verbatim>\<open>LD [I],V0\<close> then \<^verbatim>\<open>LD V0,[I]\<close> leaves \<open>V0 = 0\<close>.
\<close>

theorem store_then_load_counterexample:
  "map_sum id v (ldir_then_ldri ((regs_state [5,0,0,0,0,0,0,0,0,0,0,0,0,0,0,0])\<lparr> i := 0x300 \<rparr>)
      0xF055 0xF065) = Inr [0,0,0,0,0,0,0,0,0,0,0,0,0,0,0,0]"
  by (simp add: ldir_then_ldri_def chip8_cpu_ldir_def chip8_cpu_ldri_def regs_state_def
      chip8_init_def X_def for_upto.simps ldir_step_def ldri_step_def sizes font_def nth_append)

lemma ldir_result:
  assumes "well_formed s" and "unat (i s) + unat (X op) < RAM_SIZE"
  shows "\<exists>m. chip8_cpu_ldir s op = Inr (s\<lparr> ram := m, i := i s + (X op + 1) \<rparr>) \<and>
             length m = RAM_SIZE \<and> (\<forall>j\<le>unat (X op). m ! (unat (i s) + j) = v s ! j)"
proof -
  define Inv where "Inv k t \<longleftrightarrow>
      (\<exists>m. t = s\<lparr> ram := m \<rparr> \<and> length m = RAM_SIZE \<and> (\<forall>j<k. m ! (unat (i s) + j) = v s ! j))"
    for k and t :: "'a Chip8"
  have "\<exists>t'. for_upto 0 (unat (X op) + 1) ldir_step s = Inr t' \<and> Inv (unat (X op) + 1) t'"
  proof (rule for_upto_invariant)
    show "Inv 0 s" using assms(1) by (auto simp: Inv_def well_formed_def intro: exI [of _ "ram s"])
    show "0 \<le> unat (X op) + 1" by simp
    show "\<exists>t'. ldir_step j t = Inr t' \<and> Inv (Suc j) t'" 
      if "0 \<le> j" "j < unat (X op) + 1" "Inv j t" for j t
    proof -
      from that(3) obtain m where m: "t = s\<lparr> ram := m \<rparr>" "length m = RAM_SIZE"
        "\<forall>j'<j. m ! (unat (i s) + j') = v s ! j'" by (auto simp: Inv_def)
      have b: "unat (i s) + j < RAM_SIZE" using that(2) assms(2) by simp
      have "ldir_step j t = Inr (s\<lparr> ram := m[unat (i s) + j := v s ! j] \<rparr>)"
        using b by (simp add: ldir_step_def m(1))
      moreover have "Inv (Suc j) (s\<lparr> ram := m[unat (i s) + j := v s ! j] \<rparr>)"
        unfolding Inv_def
        using m(2,3) b by (intro exI [of _ "m[unat (i s) + j := v s ! j]"]) (auto simp: nth_list_update less_Suc_eq)
      ultimately show ?thesis by blast
    qed
  qed
  then obtain m where "for_upto 0 (unat (X op) + 1) ldir_step s = Inr (s\<lparr> ram := m \<rparr>)"
     "length m = RAM_SIZE" "\<forall>j<unat (X op) + 1. m ! (unat (i s) + j) = v s ! j"
    by (auto simp: Inv_def)
  then show ?thesis
    by (intro exI [of _ m]) (auto simp: chip8_cpu_ldir_def)
qed

lemma ldri_same:
  assumes "length (v s) = 16" and "unat (i s) + unat (X op) < RAM_SIZE"
    and "\<forall>j\<le>unat (X op). ram s ! (unat (i s) + j) = v s ! j"
  shows "chip8_cpu_ldri s op = Inr (s\<lparr> i := i s + (X op + 1) \<rparr>)"
proof -
  have "\<exists>t'. for_upto 0 (unat (X op) + 1) ldri_step s = Inr t' \<and> (\<lambda>k t. t = s) (unat (X op) + 1) t'"
  proof (rule for_upto_invariant)
    show "s = s" ..
    show "0 \<le> unat (X op) + 1" by simp
    show "\<exists>t'. ldri_step j t = Inr t' \<and> t' = s" if "0 \<le> j" "j < unat (X op) + 1" "t = s" for j t
      using that assms by (simp add: ldri_step_def list_update_same_conv)
  qed
  then show ?thesis by (simp add: chip8_cpu_ldri_def)
qed

text \<open>
  C3, amended.  For every state and register index \<open>x\<close> with \<open>I + x\<close> inside the memory,
  \<^verbatim>\<open>LD [I],Vx\<close> returns with \<open>I\<close> advanced by \<open>x + 1\<close>, and \<^verbatim>\<open>LD Vx,[I]\<close> (the same
  \<open>x\<close>) executed after \<open>I\<close> has been set back to the address of the store leaves the
  registers \<open>V0..Vx\<close> (indeed the whole register file) as they were before the store.
\<close>

theorem store_then_load_from_same_address:
  assumes "well_formed s" and "unat (i s) + unat (X op) < RAM_SIZE" and "X op' = X op"
  shows "\<exists>s1 s2. chip8_cpu_ldir s op = Inr s1 \<and> i s1 = i s + (X op + 1) \<and>
           chip8_cpu_ldri (s1\<lparr> i := i s \<rparr>) op' = Inr s2 \<and> v s2 = v s"
proof -
  from ldir_result [OF assms(1,2)] obtain m where
    m: "chip8_cpu_ldir s op = Inr (s\<lparr> ram := m, i := i s + (X op + 1) \<rparr>)"
       "length m = RAM_SIZE" "\<forall>j\<le>unat (X op). m ! (unat (i s) + j) = v s ! j"
    by blast
  let ?t = "s\<lparr> ram := m, i := i s + (X op + 1) \<rparr>\<lparr> i := i s \<rparr>"
  have "chip8_cpu_ldri ?t op' = Inr (?t\<lparr> i := i ?t + (X op' + 1) \<rparr>)"
    using assms m(3) by (intro ldri_same) (simp_all add: well_formed_def)
  with m(1) show ?thesis by simp
qed

lemma regs_state_sel:
  "v (regs_state vs) = vs" "i (regs_state vs) = 0" "pc (regs_state vs) = 0x200"
  "sp (regs_state vs) = 0" "screen (regs_state vs) = replicate SCREEN_SIZE 0"
  "length (ram (regs_state vs)) = RAM_SIZE" "length (stack (regs_state vs)) = STACK_SIZE"
  "length (keys (regs_state vs)) = KEYPAD_SIZE"
  by (simp_all add: regs_state_def chip8_init_def sizes font_def)

theorem store_then_load_from_same_address_witness:
  "\<exists>s1 s2. chip8_cpu_ldir ((regs_state [5,6,7,0,0,0,0,0,0,0,0,0,0,0,0,0])\<lparr> i := 0x300 \<rparr>) 0xF255 = Inr s1 \<and>
           i s1 = 0x303 \<and>
           chip8_cpu_ldri (s1\<lparr> i := 0x300 \<rparr>) 0xF265 = Inr s2 \<and> v s2 = [5,6,7,0,0,0,0,0,0,0,0,0,0,0,0,0]"
proof -
  let ?s = "(regs_state [5,6,7,0,0,0,0,0,0,0,0,0,0,0,0,0])\<lparr> i := 0x300 \<rparr>"
  have x: "X 0xF255 = 2" "X 0xF265 = 2" by (simp_all add: X_def)
  have wf: "well_formed ?s" by (simp add: well_formed_def regs_state_sel sizes)
  have b: "unat (i ?s) + unat (X 0xF255) < RAM_SIZE" by (simp add: x sizes)
  have e: "X 0xF265 = X 0xF255" by (simp add: x)
  from store_then_load_from_same_address [OF wf b e] show ?thesis
    by (simp add: x regs_state_sel)
qed

section \<open>Call and return\<close>

lemma top_nibble_2: 
  "chip8_op_all ! 2 = Fn_call"
  by (simp add: chip8_op_all_def)

text \<open>
  C6.  Let the state after the key handler of the cycle has run have its stack pointer
  below 16 and a \<^verbatim>\<open>CALL nnn\<close> at \<open>pc\<close>.  Then the cycle returns with \<open>pc = nnn\<close>, and
  \<^verbatim>\<open>RET\<close> executed next returns with \<open>pc\<close> at the address after the \<^verbatim>\<open>CALL\<close> and with the
  stack pointer that the \<^verbatim>\<open>CALL\<close> found.
\<close>

theorem call_then_ret:
  assumes "well_formed (kh s)" and "unat (sp (kh s)) < 16"
    and "fetch (kh s) = Inr op" and "drop_bit 12 (op AND 0xF000) = 2"
  shows "\<exists>s1 s2. chip8_cycle kh r s = Some (Inr s1) \<and> pc s1 = NNN op \<and>
           chip8_cpu_ret s1 op' = Inr s2 \<and> pc s2 = pc (kh s) + 2 \<and> sp s2 = sp (kh s)"
proof -
  let ?s0 = "(kh s)\<lparr> pc := pc (kh s) + 2 \<rparr>"
  let ?s1 = "?s0\<lparr> stack := (stack ?s0)[unat (sp ?s0) := pc ?s0], sp := sp ?s0 + 1, pc := NNN op \<rparr>"
  have len: "length (stack (kh s)) = 16"
    using assms(1) by (simp add: well_formed_def sizes)
  have cyc: "chip8_cycle kh r s = Some (Inr ?s1)"
    using assms(2,3,4)
    by (simp add: chip8_cycle_def Let_def top_nibble_2 chip8_cpu_call_def sizes)
  have ret: "chip8_cpu_ret ?s1 op' = Inr (?s1\<lparr> sp := sp (kh s), pc := pc (kh s) + 2 \<rparr>)"
    using assms(2) len by (simp add: chip8_cpu_ret_def Let_def sizes)
  show ?thesis
    using cyc ret by simp
qed

theorem call_then_ret_witness:
  "\<exists>s1 s2. chip8_cycle id 0 ((regs_state (replicate 16 0))\<lparr> ram := (replicate 0x200 0) @ [0x23, 0x45] @ replicate 0xDFE 0 \<rparr>)
               = Some (Inr s1) \<and> pc s1 = 0x345 \<and>
           chip8_cpu_ret s1 0x00EE = Inr s2 \<and> pc s2 = 0x202 \<and> sp s2 = 0"
proof -
  let ?s = "(regs_state (replicate 16 0))\<lparr> ram := (replicate 0x200 0) @ [0x23, 0x45] @ replicate 0xDFE 0 \<rparr>"
  have wf: "well_formed (id ?s)"
    by (simp add: well_formed_def regs_state_sel sizes)
  have sp: "unat (sp (id ?s)) < 16" by (simp add: regs_state_sel)
  have f: "fetch (id ?s) = Inr 0x2345"
    by (simp add: fetch_def regs_state_sel sizes nth_append)
  have n: "drop_bit 12 (0x2345 AND 0xF000 :: Opcode) = 2" by simp
  from call_then_ret [of id ?s "0x2345" 0 "0x00EE", OF wf sp f n] show ?thesis
    by (simp add: NNN_def regs_state_sel)
qed

section \<open>Key wait\<close>

lemma key_scan_Some:
  "key_scan ks k0 = Some k \<longleftrightarrow>
     k0 \<le> k \<and> k < KEYPAD_SIZE \<and> ks ! k \<noteq> 0 \<and> (\<forall>j. k0 \<le> j \<and> j < k \<longrightarrow> ks ! j = 0)"
proof (induction ks k0 rule: key_scan.induct)
  case (1 ks k0)
  show ?case
  proof (cases "k0 < KEYPAD_SIZE \<and> ks ! k0 = 0")
    case True
    then have "key_scan ks k0 = key_scan ks (Suc k0)"
      by (subst key_scan.simps) simp
    moreover have "(k0 \<le> k \<and> k < KEYPAD_SIZE \<and> ks ! k \<noteq> 0 \<and> (\<forall>j. k0 \<le> j \<and> j < k \<longrightarrow> ks ! j = 0))
       \<longleftrightarrow> (Suc k0 \<le> k \<and> k < KEYPAD_SIZE \<and> ks ! k \<noteq> 0 \<and> (\<forall>j. Suc k0 \<le> j \<and> j < k \<longrightarrow> ks ! j = 0))"
      using True by (metis Suc_leD Suc_leI le_eq_less_or_eq not_less_eq_eq)
    ultimately show ?thesis using "1.IH" True by simp
  next
    case False
    then show ?thesis
      by (subst key_scan.simps) (auto simp: not_less dest: le_antisym)
  qed
qed

lemma key_scan_None:
  "key_scan ks k0 = None \<longleftrightarrow> (\<forall>j. k0 \<le> j \<and> j < KEYPAD_SIZE \<longrightarrow> ks ! j = 0)"
proof (induction ks k0 rule: key_scan.induct)
  case (1 ks k0)
  show ?case
  proof (cases "k0 < KEYPAD_SIZE \<and> ks ! k0 = 0")
    case True
    then have "key_scan ks k0 = key_scan ks (Suc k0)"
      by (subst key_scan.simps) simp
    moreover have "(\<forall>j. k0 \<le> j \<and> j < KEYPAD_SIZE \<longrightarrow> ks ! j = 0)
       \<longleftrightarrow> (\<forall>j. Suc k0 \<le> j \<and> j < KEYPAD_SIZE \<longrightarrow> ks ! j = 0)"
      using True by (metis Suc_leD Suc_leI le_eq_less_or_eq)
    ultimately show ?thesis using "1.IH" True by simp
  next
    case False
    then show ?thesis
      by (subst key_scan.simps) (auto simp: not_less)
  qed
qed

lemma funpow_Suc_shift: "(f ^^ Suc m) (f x) = (f ^^ Suc (Suc m)) x"
  by (simp add: funpow_swap1)

lemma first_press_0: "first_press kh s 0 k \<longleftrightarrow> key_scan (keys (kh s)) 0 = Some k"
  by (simp add: first_press_def key_scan_Some)

lemma first_press_Suc:
  assumes "key_scan (keys (kh s)) 0 = None"
  shows "first_press kh s (Suc n) k \<longleftrightarrow> first_press kh (kh s) n k"
proof -
  have first: "\<forall>j<KEYPAD_SIZE. keys (kh s) ! j = 0"
    using assms by (simp add: key_scan_None)
  have "(\<forall>m<Suc n. \<forall>j<KEYPAD_SIZE. keys ((kh ^^ Suc m) s) ! j = 0) \<longleftrightarrow>
        (\<forall>m<n. \<forall>j<KEYPAD_SIZE. keys ((kh ^^ Suc (Suc m)) s) ! j = 0)"
    (is "?L \<longleftrightarrow> ?R")
  proof
    assume l: ?L
    show ?R
    proof (intro allI impI)
      fix m j assume "m < n" "j < KEYPAD_SIZE"
      then show "keys ((kh ^^ Suc (Suc m)) s) ! j = 0"
        using l [rule_format, of "Suc m" j] by simp
    qed
  next
    assume r: ?R
    show ?L
    proof (intro allI impI)
      fix m j assume mj: "m < Suc n" "j < KEYPAD_SIZE"
      show "keys ((kh ^^ Suc m) s) ! j = 0"
      proof (cases m)
        case 0
        then show ?thesis using first mj(2) by simp
      next
        case (Suc m')
        then have "m' < n" using mj(1) by simp
        then show ?thesis
          unfolding Suc using r [rule_format, of m' j] mj(2) by simp
      qed
    qed
  qed
  then show ?thesis
    unfolding first_press_def funpow_Suc_shift by simp
qed

lemma first_press_not_0:
  assumes "first_press kh s (Suc n) k"
  shows "key_scan (keys (kh s)) 0 = None"
  using assms [unfolded first_press_def, THEN conjunct1, rule_format, of 0]
  by (simp add: key_scan_None)

lemma ldk_polls:
  assumes "first_press kh s n k"
  shows "chip8_cpu_ldk kh s op =
           Some (((kh ^^ Suc n) s)\<lparr> v := (v ((kh ^^ Suc n) s))[unat (X op) := of_nat k] \<rparr>)"
  using assms
proof (induction n arbitrary: s)
  case 0
  then have "key_scan (keys (kh s)) 0 = Some k"
    by (simp add: first_press_0)
  then show ?case
    by (subst chip8_cpu_ldk.simps) (simp add: Let_def)
next
  case (Suc n)
  have none: "key_scan (keys (kh s)) 0 = None"
    using Suc.prems by (rule first_press_not_0)
  then have "chip8_cpu_ldk kh s op = chip8_cpu_ldk kh (kh s) op"
    by (subst chip8_cpu_ldk.simps) (simp add: Let_def)
  also have "\<dots> = Some (((kh ^^ Suc n) (kh s))\<lparr> v := (v ((kh ^^ Suc n) (kh s)))[unat (X op) := of_nat k] \<rparr>)"
    using Suc.prems by (intro Suc.IH) (simp add: first_press_Suc [of kh s, OF none])
  finally show ?case unfolding funpow_Suc_shift .
qed

lemma ldk_returns:
  assumes "chip8_cpu_ldk kh s op = Some s'"
  shows "\<exists>n k. first_press kh s n k \<and>
            s' = ((kh ^^ Suc n) s)\<lparr> v := (v ((kh ^^ Suc n) s))[unat (X op) := of_nat k] \<rparr>"
  using assms
proof (induction kh s op s' rule: chip8_cpu_ldk.raw_induct [rotated, consumes 1, case_names step])
  case (step ldk kh s op s')
  note IH = step(1) and eq = step(2)
  show ?case
  proof (cases "key_scan (keys (kh s)) 0")
    case None
    with eq have "ldk kh (kh s) op = Some s'" by (simp add: Let_def)
    from IH [OF this] obtain n k where nk:
      "first_press kh (kh s) n k"
      "s' = ((kh ^^ Suc n) (kh s))\<lparr> v := (v ((kh ^^ Suc n) (kh s)))[unat (X op) := of_nat k] \<rparr>"
      by blast
    have "first_press kh s (Suc n) k"
      using nk(1) by (simp add: first_press_Suc [of kh s, OF None])
    moreover have
      "s' = ((kh ^^ Suc (Suc n)) s)\<lparr> v := (v ((kh ^^ Suc (Suc n)) s))[unat (X op) := of_nat k] \<rparr>"
      using nk(2) unfolding funpow_Suc_shift .
    ultimately show ?thesis by blast
  next
    case (Some k)
    with eq have "s' = (kh s)\<lparr> v := (v (kh s))[unat (X op) := of_nat k] \<rparr>"
      by (simp add: Let_def)
    moreover have "first_press kh s 0 k"
      using Some by (simp add: first_press_0)
    ultimately show ?thesis
      by (intro exI [of _ 0] exI [of _ k]) simp
  qed
qed


text \<open>
  C10.  \<^verbatim>\<open>LD Vx,K\<close> returns exactly when some poll of the keypad reports a key.  The
  state it returns is the state at that poll (the first that reports a key) with a
  single change: \<open>Vx\<close> holds the smallest index \<open>k\<close> in 0..15 whose key is down at that
  poll.
\<close>

theorem ldk_lowest_key:
  "(chip8_cpu_ldk kh s op = Some s' \<longleftrightarrow>
      (\<exists>n k. first_press kh s n k \<and>
         s' = ((kh ^^ Suc n) s)\<lparr> v := (v ((kh ^^ Suc n) s))[unat (X op) := of_nat k] \<rparr>)) \<and>
   (first_press kh s n k \<and> length (v ((kh ^^ Suc n) s)) = 16 \<longrightarrow>
      unat ((v ((kh ^^ Suc n) s))[unat (X op) := of_nat k] ! unat (X op)) = k)"
proof (intro conjI iffI impI)
  assume "chip8_cpu_ldk kh s op = Some s'"
  then show "\<exists>n k. first_press kh s n k \<and>
         s' = ((kh ^^ Suc n) s)\<lparr> v := (v ((kh ^^ Suc n) s))[unat (X op) := of_nat k] \<rparr>"
    by (rule ldk_returns)
next
  assume "\<exists>n k. first_press kh s n k \<and>
         s' = ((kh ^^ Suc n) s)\<lparr> v := (v ((kh ^^ Suc n) s))[unat (X op) := of_nat k] \<rparr>"
  then obtain n k where "first_press kh s n k"
    "s' = ((kh ^^ Suc n) s)\<lparr> v := (v ((kh ^^ Suc n) s))[unat (X op) := of_nat k] \<rparr>"
    by blast
  then show "chip8_cpu_ldk kh s op = Some s'"
    using ldk_polls [of kh s n k op] by simp
next
  assume a: "first_press kh s n k \<and> length (v ((kh ^^ Suc n) s)) = 16"
  then have "k < 16" by (simp add: first_press_def sizes)
  then have "unat (of_nat k :: 8 word) = k"
    by (intro of_nat_inverse [OF refl]) simp
  then show "unat ((v ((kh ^^ Suc n) s))[unat (X op) := of_nat k] ! unat (X op)) = k"
    using a X_lt_16 [of op] by simp
qed

theorem ldk_lowest_key_witness:
  "chip8_cpu_ldk (press [0,0,1,0,1,0,0,0,0,0,0,0,0,0,0,0]) (regs_state [9,9,9,9,0,0,0,0,0,0,0,0,0,0,0,0]) 0xF30A
     = Some ((regs_state [9,9,9,2,0,0,0,0,0,0,0,0,0,0,0,0])\<lparr> keys := [0,0,1,0,1,0,0,0,0,0,0,0,0,0,0,0] \<rparr>)"
proof -
  let ?kh = "press [0,0,1,0,1,0,0,0,0,0,0,0,0,0,0,0]"
  let ?s = "regs_state [9,9,9,9,0,0,0,0,0,0,0,0,0,0,0,0]"
  have fp: "first_press ?kh ?s 0 2"
    by (simp add: first_press_def press_def sizes less_Suc_eq numeral_2_eq_2)
  have x: "unat (X 0xF30A) = 3" by (simp add: X_def)
  have "chip8_cpu_ldk ?kh ?s 0xF30A
          = Some (((?kh ^^ Suc 0) ?s)\<lparr> v := (v ((?kh ^^ Suc 0) ?s))[unat (X 0xF30A) := of_nat 2] \<rparr>)"
    using ldk_lowest_key [of ?kh ?s "0xF30A"
        "((?kh ^^ Suc 0) ?s)\<lparr> v := (v ((?kh ^^ Suc 0) ?s))[unat (X 0xF30A) := of_nat 2] \<rparr>" 0 2] fp
    by blast
  then show ?thesis
    by (simp add: x press_def regs_state_def)
qed

section \<open>Drawing\<close>

lemma drawn_0: "drawn s op 0 0 = {}"
  by (simp add: drawn_def)

lemma drawn_row_end: "drawn s op r 8 = drawn s op (Suc r) 0"
  by (auto simp: drawn_def less_Suc_eq)

lemma drawn_step:
  "drawn s op r (Suc c) =
     (if sprite_bit s r c then insert (drw_index s op r c) (drawn s op r c) else drawn s op r c)"
  by (auto simp: drawn_def less_Suc_eq)

lemma drw_index_inj:
  assumes "drw_index s op r c = drw_index s op r' c'" and "c < 8" and "c' < 8"
  shows "r = r' \<and> c = c'"
  using assms by (simp add: drw_index_def SCREEN_W_def) arith

lemma drawn_fresh:
  assumes "c < 8"
  shows "drw_index s op r c \<notin> drawn s op r c"
proof
  assume "drw_index s op r c \<in> drawn s op r c"
  then obtain r' c' where e: "drw_index s op r c = drw_index s op r' c'"
    and rc: "r' < r \<and> c' < 8 \<or> r' = r \<and> c' < c"
    by (auto simp: drawn_def)
  from rc assms have "c' < 8" by auto
  from drw_index_inj [OF e assms this] rc show False by simp
qed

lemma drw_index_frame:
  assumes "unat (X op) \<noteq> 15" and "unat (Y op) \<noteq> 15"
  shows "drw_index (s\<lparr> screen := scr, v := (v s)[15 := f] \<rparr>) op r c = drw_index s op r c"
    and "drw_index (s\<lparr> v := (v s)[15 := f] \<rparr>) op r c = drw_index s op r c"
    and "drw_index (s\<lparr> screen := scr \<rparr>) op r c = drw_index s op r c"
  using assms by (simp_all add: drw_index_def)

lemma drw_flag_step:
  "drw_flag s op r (Suc c) =
     (if sprite_bit s r c \<and> screen s ! drw_index s op r c \<noteq> 0 then 1 else drw_flag s op r c)"
  by (auto simp: drw_flag_def drawn_step)

lemma drw_pixel_inv:
  assumes x: "unat (X op) \<noteq> 15" and y: "unat (Y op) \<noteq> 15"
    and c: "c < 8"
    and bound: "sprite_bit s r c \<longrightarrow> drw_index s op r c < SCREEN_SIZE"
    and inv: "drw_inv s op r c t"
  shows "\<exists>t'. drw_pixel op r (ram t ! (unat (i t) + r)) c t = Inr t' \<and> drw_inv s op r (Suc c) t'"
proof -
  from inv obtain scr where t: "t = s\<lparr> v := (v s)[0xF := drw_flag s op r c], screen := scr \<rparr>"
    and len: "length scr = SCREEN_SIZE"
    and scr: "\<forall>p<SCREEN_SIZE. scr ! p =
               (if p \<in> drawn s op r c then screen s ! p XOR 1 else screen s ! p)"
    by (auto simp: drw_inv_def)
  let ?p = "drw_index s op r c"
  have byte: "(ram t ! (unat (i t) + r) AND drop_bit c 0x80 \<noteq> 0) = sprite_bit s r c"
    by (simp add: t sprite_bit_def)
  show ?thesis
  proof (cases "sprite_bit s r c")
    case False
    then have "drw_pixel op r (ram t ! (unat (i t) + r)) c t = Inr t"
      using byte by (simp add: drw_pixel_def)
    moreover have "drw_inv s op r (Suc c) t"
      using inv False by (simp add: drw_inv_def drawn_step drw_flag_step)
    ultimately show ?thesis by blast
  next
    case True
    then have p: "?p < SCREEN_SIZE" using bound by simp
    have "?p \<notin> drawn s op r c" using c by (rule drawn_fresh)
    then have old: "scr ! ?p = screen s ! ?p"
      using scr [rule_format, OF p] by simp
    let ?t' = "s\<lparr> v := (v s)[0xF := drw_flag s op r (Suc c)],
                  screen := scr[?p := screen s ! ?p XOR 1] \<rparr>"
    have "drw_pixel op r (ram t ! (unat (i t) + r)) c t = Inr ?t'"
      using byte True p old
      by (simp add: drw_pixel_def t drw_index_frame [OF x y] Let_def drw_flag_step)
    moreover have "drw_inv s op r (Suc c) ?t'"
      unfolding drw_inv_def
    proof (intro exI [of _ "scr[?p := screen s ! ?p XOR 1]"] conjI allI impI)
      show "length (scr[?p := screen s ! ?p XOR 1]) = SCREEN_SIZE" using len by simp
      fix q assume q: "q < SCREEN_SIZE"
      show "scr[?p := screen s ! ?p XOR 1] ! q =
              (if q \<in> drawn s op r (Suc c) then screen s ! q XOR 1 else screen s ! q)"
        using scr q p len True by (simp add: nth_list_update drawn_step)
    qed simp
    ultimately show ?thesis by blast
  qed
qed

lemma drw_row_inv:
  assumes x: "unat (X op) \<noteq> 15" and y: "unat (Y op) \<noteq> 15"
    and row: "unat (i s) + r < RAM_SIZE"
    and bound: "\<forall>c<8. sprite_bit s r c \<longrightarrow> drw_index s op r c < SCREEN_SIZE"
    and inv: "drw_inv s op r 0 t"
  shows "\<exists>t'. drw_row op r t = Inr t' \<and> drw_inv s op (Suc r) 0 t'"
proof -
  have frame: "ram u = ram s \<and> i u = i s" if "drw_inv s op r c u" for c u
    using that by (auto simp: drw_inv_def)
  have "\<exists>t'. for_upto 0 8 (drw_pixel op r (ram s ! (unat (i s) + r))) t = Inr t' \<and>
             drw_inv s op r 8 t'"
  proof (rule for_upto_invariant [where Inv = "drw_inv s op r"])
    show "drw_inv s op r 0 t" by (rule inv)
    show "(0::nat) \<le> 8" by simp
    show "\<exists>t'. drw_pixel op r (ram s ! (unat (i s) + r)) c u = Inr t' \<and> drw_inv s op r (Suc c) t'"
      if "0 \<le> c" "c < 8" "drw_inv s op r c u" for c u
      using drw_pixel_inv [OF x y that(2) _ that(3)] bound that(2) frame [OF that(3)] by simp
  qed
  then show ?thesis
    using row frame [OF inv] by (simp add: drw_row_def drawn_row_end drw_inv_def drw_flag_def)
qed

lemma drw_effect:
  assumes wf: "length (v s) = 16" "length (screen s) = SCREEN_SIZE"
    and x: "unat (X op) \<noteq> 15" and y: "unat (Y op) \<noteq> 15"
    and rows: "\<forall>r<unat (N op). unat (i s) + r < RAM_SIZE"
    and bound: "\<forall>r<unat (N op). \<forall>c<8. sprite_bit s r c \<longrightarrow> drw_index s op r c < SCREEN_SIZE"
  shows "\<exists>t. chip8_cpu_drw s op = Inr t \<and> drw_inv s op (unat (N op)) 0 t"
  unfolding chip8_cpu_drw_def
proof (rule for_upto_invariant [where Inv = "\<lambda>r. drw_inv s op r 0"])
  show "drw_inv s op 0 0 (s\<lparr> v := (v s)[0xF := 0] \<rparr>)"
    unfolding drw_inv_def using wf
    by (intro exI [of _ "screen s"]) (simp add: drawn_0 drw_flag_def)
  show "0 \<le> unat (N op)" by simp
  show "\<exists>t'. drw_row op r t = Inr t' \<and> drw_inv s op (Suc r) 0 t'"
    if "0 \<le> r" "r < unat (N op)" "drw_inv s op r 0 t" for r t
    using drw_row_inv [OF x y _ _ that(3)] rows bound that(2) by simp
qed


lemma drawn_cong:
  assumes "ram t = ram s" and "i t = i s"
    and "v t ! unat (X op) = v s ! unat (X op)" and "v t ! unat (Y op) = v s ! unat (Y op)"
  shows "drawn t op r c = drawn s op r c"
    and "sprite_bit t r' c' = sprite_bit s r' c'"
    and "drw_index t op r' c' = drw_index s op r' c'"
  using assms by (simp_all add: drawn_def drw_index_def sprite_bit_def)

lemma drawn_bound:
  assumes "\<forall>r<n. \<forall>c<8. sprite_bit s r c \<longrightarrow> drw_index s op r c < SCREEN_SIZE"
    and "p \<in> drawn s op n 0"
  shows "p < SCREEN_SIZE"
  using assms by (auto simp: drawn_def)

lemma zero_screen_iff:
  assumes "length scr = SCREEN_SIZE"
  shows "scr = replicate SCREEN_SIZE 0 \<longleftrightarrow> (\<forall>p<SCREEN_SIZE. scr ! p = 0)"
  using assms by (auto simp: list_eq_iff_nth_eq)

text \<open>
  Where the flag register is not a coordinate, the double draw clears the display.  Let
  \<open>x\<close> and \<open>y\<close> both differ from \<open>0xF\<close>, let the \<open>n\<close> sprite rows lie inside the memory and
  every cell the sprite touches at \<open>(Vx, Vy)\<close> inside the display buffer.  Then \<^verbatim>\<open>CLS\<close>,
  \<^verbatim>\<open>DRW Vx,Vy,n\<close> and the same \<^verbatim>\<open>DRW\<close> again all return, the display is all-zero afterwards,
  and the second draw ends with \<open>VF = 1\<close> if the first draw lit a pixel (and with \<open>VF = 0\<close>
  if the sprite was empty).
\<close>

lemma cls_drw_drw:
  assumes wf: "well_formed s" and xF: "X op \<noteq> 0xF" and yF: "Y op \<noteq> 0xF"
    and rows: "\<forall>r<unat (N op). unat (i s) + r < RAM_SIZE"
    and bound: "\<forall>r<unat (N op). \<forall>c<8.
                  sprite_bit s r c \<longrightarrow> drw_index s op r c < SCREEN_SIZE"
  shows "\<exists>s1 s2. chip8_cpu_drw (chip8_cpu_cls s op0) op = Inr s1 \<and>
           chip8_cpu_drw s1 op = Inr s2 \<and>
           screen s2 = replicate SCREEN_SIZE 0 \<and>
           v s2 ! 0xF = (if screen s1 = replicate SCREEN_SIZE 0 then 0 else 1)"
proof -
  let ?n = "unat (N op)"
  let ?s0 = "chip8_cpu_cls s op0"
  let ?D = "drawn s op ?n 0"
  have x: "unat (X op) \<noteq> 15" using xF by (rule X_ne_F)
  have y: "unat (Y op) \<noteq> 15" using yF by (rule Y_ne_F)
  have len: "length (v s) = 16" using wf by (simp add: well_formed_def)
  have D_bound: "p < SCREEN_SIZE" if "p \<in> ?D" for p
    using bound that by (rule drawn_bound)
  have cls: "v ?s0 = v s" "i ?s0 = i s" "ram ?s0 = ram s"
    "screen ?s0 = replicate SCREEN_SIZE 0"
    by (simp_all add: chip8_cpu_cls_def)
  \<comment> \<open>the first draw\<close>
  have c0: "drawn ?s0 op r c = drawn s op r c" "sprite_bit ?s0 r c = sprite_bit s r c"
    "drw_index ?s0 op r c = drw_index s op r c" for r c
    by (rule drawn_cong [of ?s0 s op]; simp add: cls)+
  have "\<exists>t. chip8_cpu_drw ?s0 op = Inr t \<and> drw_inv ?s0 op ?n 0 t"
    using len x y rows bound
    by (intro drw_effect) (simp_all add: c0 cls)
  then obtain s1 scr1 where d1: "chip8_cpu_drw ?s0 op = Inr s1"
    and s1: "s1 = ?s0\<lparr> v := (v ?s0)[0xF := drw_flag ?s0 op ?n 0], screen := scr1 \<rparr>"
    and len1: "length scr1 = SCREEN_SIZE"
    and scr1: "\<forall>p<SCREEN_SIZE. scr1 ! p =
                 (if p \<in> drawn ?s0 op ?n 0 then screen ?s0 ! p XOR 1 else screen ?s0 ! p)"
    unfolding drw_inv_def by blast
  have px1: "scr1 ! p = (if p \<in> ?D then 1 else 0)" if "p < SCREEN_SIZE" for p
    using scr1 that by (simp add: c0 cls)
  have s1f: "screen s1 = scr1" "v s1 = (v s)[0xF := drw_flag ?s0 op ?n 0]"
    "i s1 = i s" "ram s1 = ram s"
    by (simp_all add: s1 cls)
  \<comment> \<open>the second draw\<close>
  have c1: "drawn s1 op r c = drawn s op r c" "sprite_bit s1 r c = sprite_bit s r c"
    "drw_index s1 op r c = drw_index s op r c" for r c
    by (rule drawn_cong [of s1 s op]; simp add: s1f x y)+
  have "\<exists>t. chip8_cpu_drw s1 op = Inr t \<and> drw_inv s1 op ?n 0 t"
    using len len1 x y rows bound
    by (intro drw_effect) (simp_all add: c1 s1f)
  then obtain s2 scr2 where d2: "chip8_cpu_drw s1 op = Inr s2"
    and s2: "s2 = s1\<lparr> v := (v s1)[0xF := drw_flag s1 op ?n 0], screen := scr2 \<rparr>"
    and len2: "length scr2 = SCREEN_SIZE"
    and scr2: "\<forall>p<SCREEN_SIZE. scr2 ! p =
                 (if p \<in> drawn s1 op ?n 0 then screen s1 ! p XOR 1 else screen s1 ! p)"
    unfolding drw_inv_def by blast
  have s2f: "screen s2 = scr2" "v s2 = (v s1)[0xF := drw_flag s1 op ?n 0]"
    by (simp_all add: s2)
  have "scr2 ! p = 0" if "p < SCREEN_SIZE" for p
    using scr2 that px1 [OF that] by (simp add: c1 s1f)
  then have zero: "screen s2 = replicate SCREEN_SIZE 0"
    using len2 by (simp add: s2f zero_screen_iff)
  have empty: "screen s1 = replicate SCREEN_SIZE 0 \<longleftrightarrow> ?D = {}"
  proof
    assume z: "screen s1 = replicate SCREEN_SIZE 0"
    show "?D = {}"
    proof (rule ccontr)
      assume "?D \<noteq> {}"
      then obtain p where p: "p \<in> ?D" by blast
      then have "scr1 ! p = 1" using px1 [OF D_bound] by simp
      moreover have "scr1 ! p = 0"
        using z D_bound [OF p] by (simp add: s1f)
      ultimately show False by simp
    qed
  next
    assume "?D = {}"
    then show "screen s1 = replicate SCREEN_SIZE 0"
      using px1 len1 by (simp add: s1f zero_screen_iff)
  qed
  have "drw_flag s1 op ?n 0 = (if ?D = {} then 0 else 1)"
  proof (cases "?D = {}")
    case True
    then show ?thesis by (simp add: drw_flag_def c1)
  next
    case False
    then obtain p where p: "p \<in> ?D" by blast
    then have "screen s1 ! p \<noteq> 0"
      using px1 [OF D_bound] by (simp add: s1f)
    with p False show ?thesis by (auto simp: drw_flag_def c1)
  qed
  moreover have "v s2 ! 0xF = drw_flag s1 op ?n 0"
    using len by (simp add: s2f s1f)
  ultimately have flag: "v s2 ! 0xF = (if screen s1 = replicate SCREEN_SIZE 0 then 0 else 1)"
    by (simp add: empty)
  from d1 d2 zero flag show ?thesis by blast
qed


lemma cls_drw_drw_example:
  "\<exists>s1 s2. chip8_cpu_drw (chip8_cpu_cls (regs_state [10,5,0,0,0,0,0,0,0,0,0,0,0,0,0,0]) 0x00E0) 0xD015 = Inr s1 \<and>
           chip8_cpu_drw s1 0xD015 = Inr s2 \<and>
           screen s2 = replicate SCREEN_SIZE 0 \<and>
           v s2 ! 0xF = (if screen s1 = replicate SCREEN_SIZE 0 then 0 else 1)"
proof -
  let ?s = "regs_state [10,5,0,0,0,0,0,0,0,0,0,0,0,0,0,0]"
  have f: "X 0xD015 = 0" "Y 0xD015 = 1" "N 0xD015 = 5"
    by (simp_all add: X_def Y_def N_def)
  have wf: "well_formed ?s"
    by (simp add: well_formed_def regs_state_sel sizes)
  have x: "X 0xD015 \<noteq> 0xF" and y: "Y 0xD015 \<noteq> 0xF"
    by (simp_all add: f)
  have rows: "\<forall>r<unat (N 0xD015). unat (i ?s) + r < RAM_SIZE"
    by (simp add: f regs_state_sel sizes)
  have bound: "\<forall>r<unat (N 0xD015). \<forall>c<8.
                  sprite_bit ?s r c \<longrightarrow> drw_index ?s 0xD015 r c < SCREEN_SIZE"
    by (simp add: f drw_index_def regs_state_sel sizes)
  from cls_drw_drw [OF wf x y rows bound] show ?thesis .
qed

text \<open>
  C5.  After \<^verbatim>\<open>CLS\<close>, a draw and the same draw again are to leave the display all-zero,
  with \<open>VF = 1\<close> if the sprite has a set bit.  \<^verbatim>\<open>chip8_cpu_drw\<close> evaluates the index
  expression once for the collision test and once more for the XOR, and writes \<^verbatim>\<open>v[0xF]\<close>
  in between, so with \<open>x = 0xF\<close> or \<open>y = 0xF\<close> the cell it tests and the cell it flips
  differ.  Start with all registers 0 and \<open>I = 0\<close> (sprite row \<open>0xF0\<close>, the top of glyph 0);
  every cell touched is in bounds.

  \<^verbatim>\<open>DRW VF,V0,1\<close> twice: the first draw lights the cells 0..3.  In the second, the
  collision at cell 0 sets \<open>VF = 1\<close> and the XOR goes to cell 1; the rest of the row is
  drawn one cell to the right, and the cells 0 and 4 stay lit.

  \<^verbatim>\<open>DRW V0,VF,1\<close> twice: in the second draw the collision at cell 0 sets \<open>VF = 1\<close> and
  the row is drawn one line down, so the cells 0..3 stay lit and 64..67 are lit too.

  A draw that read \<open>Vx\<close> and \<open>Vy\<close> once would leave the display all-zero in both runs.
\<close>

theorem drw_flag_coordinate_evaluated:
  "map_sum id (cells [0, 1, 2, 3, 4, 64, 65, 66, 67])
     (cls_drw_twice (regs_state [0,0,0,0,0,0,0,0,0,0,0,0,0,0,0,0]) 0xDF01)
     = Inr [1, 0, 0, 0, 1, 0, 0, 0, 0] \<and>
   map_sum id (cells [0, 1, 2, 3, 4, 64, 65, 66, 67])
     (cls_drw_twice (regs_state [0,0,0,0,0,0,0,0,0,0,0,0,0,0,0,0]) 0xD0F1)
     = Inr [1, 1, 1, 1, 0, 1, 1, 1, 1] \<and>
   map_sum id v (cls_drw_twice (regs_state [0,0,0,0,0,0,0,0,0,0,0,0,0,0,0,0]) 0xDF01)
     = Inr [0,0,0,0,0,0,0,0,0,0,0,0,0,0,0,1] \<and>
   map_sum id v (cls_drw_twice (regs_state [0,0,0,0,0,0,0,0,0,0,0,0,0,0,0,0]) 0xD0F1)
     = Inr [0,0,0,0,0,0,0,0,0,0,0,0,0,0,0,1]"
  by (simp add: cls_drw_twice_def chip8_cpu_drw_def chip8_cpu_cls_def regs_state_def
      chip8_init_def drw_row_def drw_pixel_def drw_index_def for_upto.simps X_def Y_def N_def
      sizes font_def Let_def cells_def nth_list_update)

section \<open>The display invariant\<close>































end
